theory Spec2Isabelle
  imports Complex_Main "HOL-Library.Log_Nat"
begin

section \<open>JavaScript values\<close>

text \<open>
  The module \<^verbatim>\<open>src/index.js\<close> exports one function, \<^verbatim>\<open>retrier\<close>, with the registry of
  predefined retry functions as its property \<^verbatim>\<open>retry_fn\<close>. The values it inspects are
  modelled by a datatype. A number is a double: \<open>Num q\<close> is the finite double of value
  \<open>q\<close>, beside NaN and the two infinities. The code floors a number and compares it with
  zero, which are exact on doubles, and subtracts one, which rounds (\<open>minus_one\<close> below).
  The two zeros of JavaScript are not told apart (the code never does).
\<close>

datatype jsnum = Num rat | NaN | PosInf | NegInf

text \<open>
  A function value is a reference. \<open>Closure a\<close> is a function returned by
  \<^verbatim>\<open>constant_timer_retry\<close>, whose captured variables live at address \<open>a\<close>; \<open>Extern k\<close> is the
  \<open>k\<close>-th function of the caller.
\<close>

datatype fnref = Closure nat | Extern nat

text \<open>
  An object is the list of its own enumerable properties in the order of an object
  literal, where a later binding of a key replaces an earlier one.
\<close>

datatype jsval =
    JUndefined
  | JNull
  | JBool bool
  | JNum jsnum
  | JStr string
  | JObj "(string \<times> jsval) list"
  | JFun fnref

fun typeof :: "jsval \<Rightarrow> string" where
  "typeof JUndefined = ''undefined''"
| "typeof JNull = ''object''"
| "typeof (JBool b) = ''boolean''"
| "typeof (JNum n) = ''number''"
| "typeof (JStr s) = ''string''"
| "typeof (JObj kvs) = ''object''"
| "typeof (JFun f) = ''function''"

text \<open>The condition of an \<^verbatim>\<open>if\<close>: every value but these is truthy.\<close>

fun truthy :: "jsval \<Rightarrow> bool" where
  "truthy JUndefined = False"
| "truthy JNull = False"
| "truthy (JBool b) = b"
| "truthy (JNum (Num q)) = (q \<noteq> 0)"
| "truthy (JNum NaN) = False"
| "truthy (JNum PosInf) = True"
| "truthy (JNum NegInf) = True"
| "truthy (JStr s) = (s \<noteq> [])"
| "truthy (JObj kvs) = True"
| "truthy (JFun f) = True"

definition object_keys :: "(string \<times> jsval) list \<Rightarrow> string list" where
  "object_keys kvs = remdups (map fst kvs)"

definition own_property :: "(string \<times> jsval) list \<Rightarrow> string \<Rightarrow> jsval option" where
  "own_property kvs k = map_of (rev kvs) k"

text \<open>What \<^verbatim>\<open>retrier\<close> throws, by the message of the \<^verbatim>\<open>Error\<close> it constructs.\<close>

datatype error =
    No_such_predefined string
  | Incorrect_type string string string string
  | Missing_property string string
  | Invalid_parameters
  | Type_error
  | Outside_model

text \<open>
  \<open>No_such_predefined name\<close> is "No such predefined retry promise function: name",
  \<open>Incorrect_type name key actual expected\<close> is "name.key is incorrect type: actual instead
  of expected", \<open>Missing_property name key\<close> is "name is missing a property: key" and
  \<open>Invalid_parameters\<close> is "Invalid parameters for retry promise function". \<open>Type_error\<close>
  is the TypeError of the engine itself, when a property of \<^verbatim>\<open>undefined\<close> or \<^verbatim>\<open>null\<close> is
  read. \<open>Outside_model\<close> marks the one place where the model does not follow the engine
  (the coercion of a non-number by \<^verbatim>\<open>Math.floor\<close>); \<open>retrier_validate_inside_model\<close>
  below shows that \<^verbatim>\<open>retrier\<close> never gets there.
\<close>

text \<open>
  Reading the property \<open>k\<close> of a value. Properties that a value inherits or has built in
  (the members of \<^verbatim>\<open>Object.prototype\<close>, the length of a string) are not modelled here:
  the keys read this way are the parameter names of the registry, which name none of them.
\<close>

fun js_get :: "jsval \<Rightarrow> string \<Rightarrow> error + jsval" where
  "js_get JUndefined k = Inl Type_error"
| "js_get JNull k = Inl Type_error"
| "js_get (JObj kvs) k = Inr (case own_property kvs k of Some v \<Rightarrow> v | None \<Rightarrow> JUndefined)"
| "js_get v k = Inr JUndefined"

section \<open>The state of a run\<close>

text \<open>
  A promise is modelled by how it settles. \<open>Never\<close> is a promise that stays pending.
\<close>

datatype 'a promise = Resolves 'a | Rejects jsval | Never

text \<open>The variables captured by one function that \<^verbatim>\<open>constant_timer_retry\<close> returned.\<close>

record closure_env =
  x_ms_between_retries :: jsnum
  n_retries :: jsnum
  retries_remaining :: jsnum

text \<open>
  The observable events: an invocation of the subject, and a call of \<^verbatim>\<open>setTimeout\<close> with its
  delay. The trace is not in the source; it is what the properties observe.
\<close>

datatype event = Invoke_subject | Set_timeout jsnum

text \<open>
  \<open>world\<close> is everything the caller's own functions (the subject, a retry controller passed
  as a function) can read and write; \<open>cells\<close> holds the captured variables of the closures of
  \<^verbatim>\<open>constant_timer_retry\<close>, by address, which no other code can reach.
\<close>

record 'u state =
  world :: 'u
  cells :: "closure_env list"
  trace :: "event list"

type_synonym 'u subject = "'u \<Rightarrow> jsval promise \<times> 'u"

type_synonym 'u extern = "nat \<Rightarrow> jsval \<Rightarrow> 'u \<Rightarrow> jsval promise \<times> 'u"

definition invocations :: "'u state \<Rightarrow> nat" where
  "invocations st = count_list (trace st) Invoke_subject"

section \<open>\<^verbatim>\<open>constant_timer_retry\<close> (lines 70 to 89)\<close>

fun math_floor :: "jsnum \<Rightarrow> jsnum" where
  "math_floor (Num q) = Num (of_int \<lfloor>q\<rfloor>)"
| "math_floor NaN = NaN"
| "math_floor PosInf = PosInf"
| "math_floor NegInf = NegInf"

text \<open>\<^verbatim>\<open>retries_remaining != 0\<close>: NaN differs from every number.\<close>

fun neq_zero :: "jsnum \<Rightarrow> bool" where
  "neq_zero (Num q) = (q \<noteq> 0)"
| "neq_zero NaN = True"
| "neq_zero PosInf = True"
| "neq_zero NegInf = True"

text \<open>
  The arithmetic of doubles: the result of an operation is the exact result rounded to the
  nearest double, a tie going to the double with the even significand. \<open>binary_exponent x\<close>
  is the exponent \<open>e\<close> with \<open>2 powi e \<le> \<bar>x\<bar> < 2 powi (e + 1)\<close>; the doubles of that
  magnitude are the multiples of \<open>2 powi (e - 52)\<close>, the exponent being at least \<open>- 1022\<close>,
  and a result of magnitude \<open>2 powi 1024\<close> is an infinity.
\<close>

definition round_half_even :: "rat \<Rightarrow> int" where
  "round_half_even x =
     (let f = \<lfloor>x\<rfloor>; r = x - of_int f
      in if r < 1 / 2 then f else if 1 / 2 < r then f + 1 else if even f then f else f + 1)"

definition binary_exponent :: "rat \<Rightarrow> int" where
  "binary_exponent x =
     (case quotient_of \<bar>x\<bar> of
        (a, b) \<Rightarrow> (let d = bitlen a - bitlen b in if 2 powi d \<le> \<bar>x\<bar> then d else d - 1))"

definition round_double :: "rat \<Rightarrow> jsnum" where
  "round_double x =
     (if x = 0 then Num 0
      else
        (let e = max (binary_exponent x) (- 1022);
             ulp = 2 powi (e - 52);
             y = ulp * of_int (round_half_even (x / ulp))
         in if 2 powi 1024 \<le> y then PosInf
            else if y \<le> - (2 powi 1024) then NegInf
            else Num y))"

text \<open>\<^verbatim>\<open>retries_remaining -= 1\<close>\<close>

fun minus_one :: "jsnum \<Rightarrow> jsnum" where
  "minus_one (Num q) = round_double (q - 1)"
| "minus_one NaN = NaN"
| "minus_one PosInf = PosInf"
| "minus_one NegInf = NegInf"

text \<open>
  The call \<^verbatim>\<open>constant_timer_retry(x, n)\<close> floors both arguments, allocates the captured
  variables and returns the closure.
\<close>

definition constant_timer_retry :: "jsnum \<Rightarrow> jsnum \<Rightarrow> 'u state \<Rightarrow> fnref \<times> 'u state" where
  "constant_timer_retry x_ms_between_retries' n_retries' st =
     (let x = math_floor x_ms_between_retries';
          n = math_floor n_retries';
          env = \<lparr>x_ms_between_retries = x, n_retries = n, retries_remaining = n\<rparr>
      in (Closure (length (cells st)), st\<lparr>cells := cells st @ [env]\<rparr>))"

text \<open>
  The returned function \<^verbatim>\<open>err => new Promise(...)\<close> (lines 74 to 88), called on the closure at
  address \<open>a\<close>. With retries remaining it sets the timer, whose callback decrements the
  counter and resolves; the promise is modelled when it has settled, so both happen in
  one step. Otherwise it rejects with \<open>err\<close>. An address that was never allocated has no
  function behind it; the model lets such a call stay pending.
\<close>

definition closure_call :: "nat \<Rightarrow> jsval \<Rightarrow> 'u state \<Rightarrow> jsval promise \<times> 'u state" where
  "closure_call a err st =
     (if a < length (cells st) then
        (let env = cells st ! a in
         if neq_zero (retries_remaining env) then
           (Resolves JUndefined,
            st\<lparr>cells := (cells st)[a := env\<lparr>retries_remaining := minus_one (retries_remaining env)\<rparr>],
               trace := trace st @ [Set_timeout (x_ms_between_retries env)]\<rparr>)
         else (Rejects err, st))
      else (Never, st))"

section \<open>The registry \<^verbatim>\<open>retrier.retry_fn\<close> (lines 91 to 99)\<close>

text \<open>
  \<^verbatim>\<open>constant_timer_retry(...arg_vals)\<close>: the first two arguments are taken, further ones are
  dropped. Both are numbers whenever the registry's parameter types were checked.
\<close>

fun constant_timer_retry_spread :: "jsval list \<Rightarrow> 'u state \<Rightarrow> (error + fnref) \<times> 'u state" where
  "constant_timer_retry_spread (JNum x # JNum n # rest) st =
     (case constant_timer_retry x n st of (f, st') \<Rightarrow> (Inr f, st'))"
| "constant_timer_retry_spread arg_vals st = (Inl Outside_model, st)"

text \<open>
  An entry of the registry names the function to call (the module defines one) and the
  parameters in order, each with the \<^verbatim>\<open>typeof\<close> expected.
\<close>

datatype predefined = Constant_timer_retry

fun call_predefined :: "predefined \<Rightarrow> jsval list \<Rightarrow> 'u state \<Rightarrow> (error + fnref) \<times> 'u state" where
  "call_predefined Constant_timer_retry arg_vals st = constant_timer_retry_spread arg_vals st"

record entry =
  fn :: predefined
  params :: "(string \<times> string) list"

definition retry_fn :: "(string \<times> entry) list" where
  "retry_fn =
     [(''constant_timer_retry'',
       \<lparr>fn = Constant_timer_retry,
        params = [(''x_ms_between_retries'', ''number''), (''n_retries'', ''number'')]\<rparr>)]"

text \<open>
  \<^verbatim>\<open>retrier.retry_fn[name]\<close> also finds what the registry object inherits from
  \<^verbatim>\<open>Object.prototype\<close>. Each of these members is truthy and has no \<^verbatim>\<open>params\<close>, so that
  \<^verbatim>\<open>.params.forEach\<close> raises a TypeError.
\<close>

definition object_prototype_members :: "string list" where
  "object_prototype_members =
     [''constructor'', ''hasOwnProperty'', ''isPrototypeOf'', ''propertyIsEnumerable'',
      ''toLocaleString'', ''toString'', ''valueOf'', ''__proto__'',
      ''__defineGetter__'', ''__defineSetter__'', ''__lookupGetter__'', ''__lookupSetter__'']"

section \<open>\<^verbatim>\<open>retrier\<close> (lines 23 to 67)\<close>

text \<open>
  The body of the \<^verbatim>\<open>forEach\<close> over the declared parameters (lines 35 to 48), from the
  parameter at hand on; \<open>arg_vals\<close> is the array filled so far. \<open>pobj\<close> is
  \<^verbatim>\<open>retry_controller[Object.keys(retry_controller)[0]]\<close>.
\<close>

fun params_forEach ::
  "string \<Rightarrow> jsval \<Rightarrow> (string \<times> string) list \<Rightarrow> jsval list \<Rightarrow> error + jsval list" where
  "params_forEach predef_retry_fnname pobj [] arg_vals = Inr arg_vals"
| "params_forEach predef_retry_fnname pobj ((key, expected_keytype) # keyobjs) arg_vals =
     (case js_get pobj key of
        Inl e \<Rightarrow> Inl e
      | Inr v \<Rightarrow>
          if truthy v then
            (let forvalidation_keytype = typeof v in
             if forvalidation_keytype \<noteq> expected_keytype then
               Inl (Incorrect_type predef_retry_fnname key forvalidation_keytype expected_keytype)
             else params_forEach predef_retry_fnname pobj keyobjs (arg_vals @ [v]))
          else Inl (Missing_property predef_retry_fnname key))"

text \<open>
  Lines 26 to 53: the validation of \<^verbatim>\<open>retry_controller\<close>, which yields
  \<^verbatim>\<open>retry_controller_fn\<close> or throws. \<^verbatim>\<open>typeof null\<close> is \<^verbatim>\<open>'object'\<close>, and \<^verbatim>\<open>Object.keys(null)\<close>
  raises a TypeError.
\<close>

definition retrier_validate :: "jsval \<Rightarrow> 'u state \<Rightarrow> (error + fnref) \<times> 'u state" where
  "retrier_validate retry_controller st =
     (case retry_controller of
        JFun f \<Rightarrow> (Inr f, st)
      | JNull \<Rightarrow> (Inl Type_error, st)
      | JObj kvs \<Rightarrow>
          (case object_keys kvs of
             [predef_retry_fnname] \<Rightarrow>
               (case map_of retry_fn predef_retry_fnname of
                  None \<Rightarrow>
                    if predef_retry_fnname \<in> set object_prototype_members
                    then (Inl Type_error, st)
                    else (Inl (No_such_predefined predef_retry_fnname), st)
                | Some e \<Rightarrow>
                    (case js_get retry_controller predef_retry_fnname of
                       Inl err \<Rightarrow> (Inl err, st)
                     | Inr pobj \<Rightarrow>
                         (case params_forEach predef_retry_fnname pobj (params e) [] of
                            Inl err \<Rightarrow> (Inl err, st)
                          | Inr arg_vals \<Rightarrow> call_predefined (fn e) arg_vals st)))
           | _ \<Rightarrow> (Inl Invalid_parameters, st))
      | _ \<Rightarrow> (Inl Invalid_parameters, st))"

text \<open>Calling \<^verbatim>\<open>subject_promise_fn()\<close> and \<^verbatim>\<open>retry_controller_fn(err)\<close>.\<close>

definition call_subject :: "'u subject \<Rightarrow> 'u state \<Rightarrow> jsval promise \<times> 'u state" where
  "call_subject subject_promise_fn st =
     (case subject_promise_fn (world st) of
        (p, w) \<Rightarrow> (p, st\<lparr>world := w, trace := trace st @ [Invoke_subject]\<rparr>))"

fun call_fn :: "'u extern \<Rightarrow> fnref \<Rightarrow> jsval \<Rightarrow> 'u state \<Rightarrow> jsval promise \<times> 'u state" where
  "call_fn ext (Closure a) err st = closure_call a err st"
| "call_fn ext (Extern k) err st =
     (case ext k err (world st) of (p, w) \<Rightarrow> (p, st\<lparr>world := w\<rparr>))"

text \<open>
  \<^verbatim>\<open>subject_caller\<close> (lines 57 to 65). The result is how the returned promise settles and
  the state then; \<open>None\<close> is a chain of retries that never ends.
\<close>

partial_function (option) subject_caller ::
  "'u extern \<Rightarrow> 'u subject \<Rightarrow> fnref \<Rightarrow> 'u state \<Rightarrow> (jsval promise \<times> 'u state) option" where
  "subject_caller ext subject_promise_fn retry_controller_fn st =
     (case call_subject subject_promise_fn st of
        (Resolves v, st1) \<Rightarrow> Some (Resolves v, st1)
      | (Never, st1) \<Rightarrow> Some (Never, st1)
      | (Rejects err, st1) \<Rightarrow>
          (case call_fn ext retry_controller_fn err st1 of
             (Resolves u, st2) \<Rightarrow> subject_caller ext subject_promise_fn retry_controller_fn st2
           | (Rejects r, st2) \<Rightarrow> Some (Rejects r, st2)
           | (Never, st2) \<Rightarrow> Some (Never, st2)))"

declare subject_caller.simps [code]

text \<open>
  \<^verbatim>\<open>retrier\<close> either throws, before anything else has happened, or returns the promise of
  \<^verbatim>\<open>subject_caller()\<close>.
\<close>

datatype 'u result = Throws error "'u state" | Promise "(jsval promise \<times> 'u state) option"

definition retrier :: "'u extern \<Rightarrow> 'u subject \<Rightarrow> jsval \<Rightarrow> 'u state \<Rightarrow> 'u result" where
  "retrier ext subject_promise_fn retry_controller st =
     (case retrier_validate retry_controller st of
        (Inl err, st') \<Rightarrow> Throws err st'
      | (Inr retry_controller_fn, st') \<Rightarrow>
          Promise (subject_caller ext subject_promise_fn retry_controller_fn st'))"

section \<open>Notions the properties are stated with\<close>

text \<open>
  The subject owns its state: \<open>world_after subj k w\<close> is the caller's world after \<open>k\<close>
  invocations from \<open>w\<close>, and \<open>attempt subj k w\<close> is how invocation number \<open>k + 1\<close> settles.
\<close>

fun world_after :: "'u subject \<Rightarrow> nat \<Rightarrow> 'u \<Rightarrow> 'u" where
  "world_after subj 0 w = w"
| "world_after subj (Suc k) w = world_after subj k (snd (subj w))"

definition attempt :: "'u subject \<Rightarrow> nat \<Rightarrow> 'u \<Rightarrow> jsval promise" where
  "attempt subj k w = fst (subj (world_after subj k w))"

text \<open>A retry function invoked once for each failure reason of a list, in order.\<close>

fun call_many :: "'u extern \<Rightarrow> fnref \<Rightarrow> jsval list \<Rightarrow> 'u state \<Rightarrow> jsval promise list \<times> 'u state" where
  "call_many ext f [] st = ([], st)"
| "call_many ext f (err # errs) st =
     (case call_fn ext f err st of
        (p, st1) \<Rightarrow> (case call_many ext f errs st1 of (ps, st2) \<Rightarrow> (p # ps, st2)))"

text \<open>
  One round of the loop that ends in a retry: the subject rejects and the retry function
  resolves.
\<close>

inductive retry_round :: "'u extern \<Rightarrow> 'u subject \<Rightarrow> fnref \<Rightarrow> 'u state \<Rightarrow> 'u state \<Rightarrow> bool"
  for ext :: "'u extern" and subj :: "'u subject" and f :: fnref where
  retry_roundI:
    "call_subject subj st = (Rejects err, st1) \<Longrightarrow> call_fn ext f err st1 = (Resolves u, st2) \<Longrightarrow>
     retry_round ext subj f st st2"

fun negative :: "jsnum \<Rightarrow> bool" where
  "negative (Num q) = (q < 0)"
| "negative NegInf = True"
| "negative NaN = False"
| "negative PosInf = False"

text \<open>
  Truncation toward zero, as the specification words the rounding of the two construction
  parameters (the code calls \<^verbatim>\<open>Math.floor\<close>).
\<close>

definition trunc_toward_zero :: "rat \<Rightarrow> int" where
  "trunc_toward_zero q = (if 0 \<le> q then \<lfloor>q\<rfloor> else \<lceil>q\<rceil>)"

text \<open>
  A named parameter is missing from the parameter object when the object has no such key
  (a value that is no object has no keys), and wrongly typed when the key is there with a
  value of another \<^verbatim>\<open>typeof\<close> than declared.
\<close>

fun param_missing :: "jsval \<Rightarrow> string \<Rightarrow> bool" where
  "param_missing (JObj pkvs) key = (own_property pkvs key = None)"
| "param_missing v key = True"

fun param_wrongly_typed :: "jsval \<Rightarrow> string \<Rightarrow> string \<Rightarrow> bool" where
  "param_wrongly_typed (JObj pkvs) key expected =
     (case own_property pkvs key of None \<Rightarrow> False | Some v \<Rightarrow> typeof v \<noteq> expected)"
| "param_wrongly_typed v key expected = False"

text \<open>
  A malformed descriptor: not a function, and not a mapping with a single key, or with a
  single key that names no registered policy, or with a registered parameter that is
  missing or wrongly typed.
\<close>

fun malformed :: "jsval \<Rightarrow> bool" where
  "malformed (JFun f) = False"
| "malformed (JObj kvs) =
     (case object_keys kvs of
        [name] \<Rightarrow>
          (case map_of retry_fn name of
             None \<Rightarrow> True
           | Some e \<Rightarrow>
               (case own_property kvs name of
                  None \<Rightarrow> True
                | Some pobj \<Rightarrow>
                    list_ex (\<lambda>(key, expected).
                      param_missing pobj key \<or> param_wrongly_typed pobj key expected) (params e)))
      | _ \<Rightarrow> True)"
| "malformed v = True"

text \<open>
  Two collaborators to run the theorems on: a subject that counts its invocations in the
  world, rejects the first \<open>K\<close> of them with their number and resolves from then on; and
  a caller without retry functions of its own.
\<close>

definition flaky :: "nat \<Rightarrow> nat subject" where
  "flaky K = (\<lambda>u. (if u < K then Rejects (JNum (Num (of_nat u))) else Resolves (JStr ''ok''), Suc u))"

definition no_extern :: "nat extern" where
  "no_extern = (\<lambda>k err u. (Never, u))"

text \<open>
  What a rejected promise of \<^verbatim>\<open>subject_caller\<close> goes back to: rounds of retry, then an attempt
  that fails and a retry function that rejects with the reason surfaced.
\<close>

definition aborted_by :: "'u extern \<Rightarrow> 'u subject \<Rightarrow> fnref \<Rightarrow> 'u state \<Rightarrow> jsval promise \<times> 'u state \<Rightarrow> bool" where
  "aborted_by ext subj f st y =
     (\<forall>r' st2. y = (Rejects r', st2) \<longrightarrow>
           (\<exists>st_k r st1. (retry_round ext subj f)\<^sup>*\<^sup>* st st_k
              \<and> call_subject subj st_k = (Rejects r, st1)
              \<and> call_fn ext f r st1 = (Rejects r', st2)))"

text \<open>
  A retry function of the caller's: it lets the first attempt be retried and then gives up
  with a reason of its own, whatever the failure was.
\<close>

definition substituting :: "nat extern" where
  "substituting = (\<lambda>k err u. (if u < 2 then Resolves JUndefined else Rejects (JStr ''giving up''), u))"

text \<open>
  A counter that no number of decrements brings to zero, and a run that cannot end: the
  subject fails in every world and the retry function is a constant-delay closure with
  such a counter.
\<close>

definition never_zero :: "jsnum \<Rightarrow> bool" where
  "never_zero c = (\<forall>k. neq_zero ((minus_one ^^ k) c))"

definition endless :: "'u subject \<Rightarrow> fnref \<Rightarrow> 'u state \<Rightarrow> bool" where
  "endless subj f st =
     ((\<forall>w. \<exists>e. fst (subj w) = Rejects e) \<and>
      (\<exists>a. f = Closure a \<and> a < length (cells st) \<and> never_zero (retries_remaining (cells st ! a))))"


definition always_failing :: "nat subject" where
  "always_failing = (\<lambda>u. (Rejects (JStr ''boom''), Suc u))"

section \<open>Subtracting one from a double\<close>

lemma round_half_even_of_int: "round_half_even (of_int z) = z"
  by (simp add: round_half_even_def)

lemma round_half_even_negative:
  assumes "x \<le> - 1"
  shows "round_half_even x \<le> - 1"
proof -
  have f: "\<lfloor>x\<rfloor> \<le> - 1"
    using assms by (simp add: floor_le_iff)
  have "\<lfloor>x\<rfloor> + 1 \<le> - 1" if "1 / 2 \<le> x - of_int \<lfloor>x\<rfloor>"
  proof -
    from that assms have "(of_int (\<lfloor>x\<rfloor> + 1) :: rat) < 0"
      by simp
    then have "\<lfloor>x\<rfloor> + 1 < 0"
      by (simp only: of_int_less_0_iff)
    then show ?thesis by simp
  qed
  with f show ?thesis
    by (auto simp: round_half_even_def Let_def)
qed

lemma binary_exponent_lower:
  assumes "x \<noteq> 0"
  shows "2 powi binary_exponent x \<le> \<bar>x\<bar>"
proof -
  obtain a b where q: "quotient_of \<bar>x\<bar> = (a, b)"
    by (cases "quotient_of \<bar>x\<bar>")
  then have b: "0 < b" and x: "\<bar>x\<bar> = of_int a / of_int b"
    by (simp_all add: quotient_of_denom_pos quotient_of_div)
  from assms have "0 < \<bar>x\<bar>"
    by simp
  then have "0 < (of_int a :: rat) / of_int b"
    by (simp only: x)
  with b have a: "0 < a"
    by (simp add: zero_less_divide_iff)
  define d where "d = bitlen a - bitlen b"
  show ?thesis
  proof (cases "2 powi d \<le> \<bar>x\<bar>")
    case True
    then show ?thesis
      by (simp add: binary_exponent_def q d_def)
  next
    case False
    have A: "1 \<le> bitlen a" and B: "1 \<le> bitlen b"
      using a b bitlen_eq_zero_iff [of a] bitlen_eq_zero_iff [of b] bitlen_nonneg [of a] bitlen_nonneg [of b]
      by linarith+
    from bitlen_bounds [OF a] have "(2::int) ^ nat (bitlen a - 1) \<le> a"
      by simp
    then have "(of_int ((2::int) ^ nat (bitlen a - 1)) :: rat) \<le> of_int a"
      by (simp only: of_int_le_iff)
    then have la: "(2::rat) ^ nat (bitlen a - 1) \<le> of_int a"
      by simp
    from bitlen_bounds [OF b] have "b < (2::int) ^ nat (bitlen b)"
      by simp
    then have "(of_int b :: rat) < of_int ((2::int) ^ nat (bitlen b))"
      by (simp only: of_int_less_iff)
    then have ub: "(of_int b :: rat) < 2 ^ nat (bitlen b)"
      by simp
    have "d - 1 = (bitlen a - 1) - bitlen b"
      by (simp add: d_def)
    then have "(2::rat) powi (d - 1) = 2 powi ((bitlen a - 1) - bitlen b)"
      by (rule arg_cong)
    also have "\<dots> = 2 powi (bitlen a - 1) / 2 powi (bitlen b)"
      by (rule power_int_diff) simp
    also have "\<dots> = 2 ^ nat (bitlen a - 1) / 2 ^ nat (bitlen b)"
      using A B by (simp add: power_int_nonneg_exp)
    also have "\<dots> \<le> of_int a / 2 ^ nat (bitlen b)"
      using la by (simp add: divide_right_mono)
    also have "\<dots> \<le> of_int a / of_int b"
      using ub a b by (simp add: frac_le)
    finally have "(2::rat) powi (d - 1) \<le> \<bar>x\<bar>"
      by (simp add: x)
    with False show ?thesis
      by (simp add: binary_exponent_def q d_def)
  qed
qed

lemma round_double_of_int:
  assumes "\<bar>z\<bar> \<le> 2 ^ 53"
  shows "round_double (of_int z) = Num (of_int z)"
proof (cases "z = 0")
  case True
  then show ?thesis by (simp add: round_double_def)
next
  case False
  define x :: rat where "x = of_int z"
  define e where "e = max (binary_exponent x) (- 1022)"
  have x0: "x \<noteq> 0" using False by (simp add: x_def)
  have ax: "\<bar>x\<bar> \<le> 2 ^ 53"
  proof -
    from assms have "(of_int \<bar>z\<bar> :: rat) \<le> of_int (2 ^ 53)"
      by (simp only: of_int_le_iff)
    then show ?thesis by (simp add: x_def)
  qed
  have "(2::rat) powi binary_exponent x \<le> 2 powi 53"
    using binary_exponent_lower [OF x0] ax by simp
  then have "binary_exponent x \<le> 53"
    by (rule power_int_le_imp_le_exp [rotated]) simp_all
  then have e53: "e \<le> 53" by (simp add: e_def)
  have "\<exists>k. x / 2 powi (e - 52) = of_int k"
  proof (cases "e \<le> 52")
    case True
    then have "(2::rat) powi (e - 52) = 1 / 2 ^ nat (52 - e)"
      by (simp add: power_int_def field_simps)
    then have "x / 2 powi (e - 52) = of_int (z * 2 ^ nat (52 - e))"
      by (simp add: x_def)
    then show ?thesis by blast
  next
    case False
    with e53 have e: "e = 53" by simp
    then have "e = binary_exponent x" by (simp add: e_def max_def split: if_splits)
    with binary_exponent_lower [OF x0] e ax have "\<bar>x\<bar> = 2 ^ 53"
      by simp
    then have "\<bar>z\<bar> = 2 ^ 53"
      unfolding x_def by (metis of_int_abs of_int_eq_iff of_int_numeral of_int_power)
    then have "z = 2 ^ 53 \<or> z = - (2 ^ 53)"
      by linarith
    then have "x / 2 powi (e - 52) = of_int (z div 2)"
      using e by (auto simp: x_def)
    then show ?thesis by blast
  qed
  then obtain k where k: "x / 2 powi (e - 52) = of_int k"
    by blast
  have "2 powi (e - 52) * of_int (round_half_even (x / 2 powi (e - 52))) = x"
    unfolding k round_half_even_of_int using k [symmetric] by simp
  moreover have "\<not> 2 powi 1024 \<le> x" "\<not> x \<le> - (2 powi 1024)"
    using ax by simp_all
  ultimately show ?thesis
    using x0 by (simp add: round_double_def Let_def e_def [symmetric] x_def [symmetric])
qed

lemma round_double_negative:
  assumes "x \<le> - 1"
  shows "negative (round_double x)"
proof -
  define e where "e = max (binary_exponent x) (- 1022)"
  define ulp :: rat where "ulp = 2 powi (e - 52)"
  have x0: "x \<noteq> 0" using assms by auto
  have ulp: "0 < ulp" by (simp add: ulp_def)
  have "ulp \<le> \<bar>x\<bar>"
  proof (cases "binary_exponent x \<le> - 1022")
    case True
    then have "e = - 1022" by (simp add: e_def)
    then have "ulp \<le> 1"
      by (simp add: ulp_def power_int_def field_simps)
    with assms show ?thesis by simp
  next
    case False
    then have "e = binary_exponent x" by (simp add: e_def)
    then have "ulp \<le> 2 powi binary_exponent x"
      by (simp add: ulp_def power_int_increasing)
    with binary_exponent_lower [OF x0] show ?thesis by simp
  qed
  then have "x / ulp \<le> - 1"
    using assms ulp by (simp add: field_simps)
  from round_half_even_negative [OF this] have "(of_int (round_half_even (x / ulp)) :: rat) \<le> - 1"
    by (metis of_int_le_iff of_int_minus of_int_1)
  then have "ulp * of_int (round_half_even (x / ulp)) < 0"
    using ulp by (simp add: mult_less_0_iff)
  then show ?thesis
    using x0 by (simp add: round_double_def Let_def e_def [symmetric] ulp_def [symmetric])
qed

lemma binary_exponent_upper:
  assumes "x \<noteq> 0"
  shows "\<bar>x\<bar> < 2 powi (binary_exponent x + 1)"
proof -
  obtain a b where q: "quotient_of \<bar>x\<bar> = (a, b)"
    by (cases "quotient_of \<bar>x\<bar>")
  then have b: "0 < b" and x: "\<bar>x\<bar> = of_int a / of_int b"
    by (simp_all add: quotient_of_denom_pos quotient_of_div)
  from assms have "0 < \<bar>x\<bar>"
    by simp
  then have "0 < (of_int a :: rat) / of_int b"
    by (simp only: x)
  with b have a: "0 < a"
    by (simp add: zero_less_divide_iff)
  define d where "d = bitlen a - bitlen b"
  show ?thesis
  proof (cases "2 powi d \<le> \<bar>x\<bar>")
    case False
    then show ?thesis
      by (simp add: binary_exponent_def q d_def)
  next
    case True
    have A: "1 \<le> bitlen a" and B: "1 \<le> bitlen b"
      using a b bitlen_eq_zero_iff [of a] bitlen_eq_zero_iff [of b] bitlen_nonneg [of a] bitlen_nonneg [of b]
      by linarith+
    from bitlen_bounds [OF a] have "a < (2::int) ^ nat (bitlen a)"
      by simp
    then have "(of_int a :: rat) < of_int ((2::int) ^ nat (bitlen a))"
      by (simp only: of_int_less_iff)
    then have ua: "(of_int a :: rat) < 2 ^ nat (bitlen a)"
      by simp
    from bitlen_bounds [OF b] have "(2::int) ^ nat (bitlen b - 1) \<le> b"
      by simp
    then have "(of_int ((2::int) ^ nat (bitlen b - 1)) :: rat) \<le> of_int b"
      by (simp only: of_int_le_iff)
    then have lb: "(2::rat) ^ nat (bitlen b - 1) \<le> of_int b"
      by simp
    have "\<bar>x\<bar> = of_int a / of_int b"
      by (rule x)
    also have "\<dots> < 2 ^ nat (bitlen a) / of_int b"
      using ua b by (simp add: divide_strict_right_mono)
    also have "\<dots> \<le> 2 ^ nat (bitlen a) / 2 ^ nat (bitlen b - 1)"
      using lb by (simp add: frac_le)
    also have "\<dots> = 2 powi (bitlen a) / 2 powi (bitlen b - 1)"
      using A B by (simp add: power_int_nonneg_exp)
    also have "\<dots> = 2 powi (bitlen a - (bitlen b - 1))"
      by (rule power_int_diff [symmetric]) simp
    also have "bitlen a - (bitlen b - 1) = d + 1"
      by (simp add: d_def)
    finally have "\<bar>x\<bar> < 2 powi (d + 1)" .
    with True show ?thesis
      by (simp add: binary_exponent_def q d_def)
  qed
qed

lemma binary_exponent_eqI:
  assumes "2 powi e \<le> \<bar>x\<bar>" and "\<bar>x\<bar> < 2 powi (e + 1)"
  shows "binary_exponent x = e"
proof -
  have x0: "x \<noteq> 0"
  proof
    assume "x = 0"
    with assms(1) have "(2::rat) powi e \<le> 0" by simp
    moreover have "(0::rat) < 2 powi e" by simp
    ultimately show False by simp
  qed
  have lt: "m < n" if "(2::rat) powi m < 2 powi n" for m n :: int
  proof (rule ccontr)
    assume "\<not> m < n"
    then have "(2::rat) powi n \<le> 2 powi m"
      by (simp add: power_int_increasing)
    with that show False by simp
  qed
  from binary_exponent_lower [OF x0] assms(2)
  have "(2::rat) powi binary_exponent x < 2 powi (e + 1)"
    by simp
  then have "binary_exponent x < e + 1"
    by (rule lt)
  moreover from binary_exponent_upper [OF x0] assms(1)
  have "(2::rat) powi e < 2 powi (binary_exponent x + 1)"
    by simp
  then have "e < binary_exponent x + 1"
    by (rule lt)
  ultimately show ?thesis by simp
qed

lemma minus_one_2_54: "minus_one (Num 18014398509481984) = Num 18014398509481984"
proof -
  have e: "binary_exponent 18014398509481983 = 53"
    by (rule binary_exponent_eqI) simp_all
  have "\<lfloor>18014398509481983 / 2 :: rat\<rfloor> = 9007199254740991"
    by (simp add: floor_eq_iff)
  then have "round_half_even (18014398509481983 / 2) = 9007199254740992"
    by (simp add: round_half_even_def)
  then have "round_double 18014398509481983 = Num 18014398509481984"
    by (simp add: round_double_def e)
  then show ?thesis by simp
qed


lemma minus_one_of_nat:
  assumes "0 < n" and "n \<le> 2 ^ 53"
  shows "minus_one (Num (of_nat n)) = Num (of_nat (n - 1))"
proof -
  have "\<bar>int n - 1\<bar> \<le> 2 ^ 53"
    using assms by simp
  from round_double_of_int [OF this] assms(1) show ?thesis
    by (simp add: of_nat_diff)
qed

section \<open>Unfolding the loop\<close>


lemma subject_caller_pending:
  "call_subject subj st = (Never, st1) \<Longrightarrow>
   subject_caller ext subj f st = Some (Never, st1)"
  by (subst subject_caller.simps) simp

lemma subject_caller_abort:
  "call_subject subj st = (Rejects err, st1) \<Longrightarrow> call_fn ext f err st1 = (Rejects r, st2) \<Longrightarrow>
   subject_caller ext subj f st = Some (Rejects r, st2)"
  by (subst subject_caller.simps) simp

lemma subject_caller_stuck:
  "call_subject subj st = (Rejects err, st1) \<Longrightarrow> call_fn ext f err st1 = (Never, st2) \<Longrightarrow>
   subject_caller ext subj f st = Some (Never, st2)"
  by (subst subject_caller.simps) simp

lemma subject_caller_proceed:
  "call_subject subj st = (Rejects err, st1) \<Longrightarrow> call_fn ext f err st1 = (Resolves u, st2) \<Longrightarrow>
   subject_caller ext subj f st = subject_caller ext subj f st2"
  by (subst subject_caller.simps) simp

lemma call_subject_eq:
  "call_subject subj st =
     (attempt subj 0 (world st),
      st\<lparr>world := world_after subj 1 (world st), trace := trace st @ [Invoke_subject]\<rparr>)"
  by (simp add: call_subject_def attempt_def split: prod.splits)

lemma closure_call_proceed:
  "a < length (cells st) \<Longrightarrow> neq_zero (retries_remaining (cells st ! a)) \<Longrightarrow>
   closure_call a err st =
     (Resolves JUndefined,
      st\<lparr>cells := (cells st)[a := (cells st ! a)\<lparr>retries_remaining :=
                                    minus_one (retries_remaining (cells st ! a))\<rparr>],
         trace := trace st @ [Set_timeout (x_ms_between_retries (cells st ! a))]\<rparr>)"
  by (simp add: closure_call_def Let_def)

lemma closure_call_abort:
  "a < length (cells st) \<Longrightarrow> \<not> neq_zero (retries_remaining (cells st ! a)) \<Longrightarrow>
   closure_call a err st = (Rejects err, st)"
  by (simp add: closure_call_def Let_def)

lemma failing_rounds:
  assumes "a < length (cells st)"
    and "retries_remaining (cells st ! a) = Num (of_nat n)"
    and "K \<le> n"
    and "\<forall>i<K. \<exists>e. attempt subj i (world st) = Rejects e"
    and "n \<le> 2 ^ 53"
  shows "\<exists>st'. subject_caller ext subj (Closure a) st = subject_caller ext subj (Closure a) st'
           \<and> world st' = world_after subj K (world st)
           \<and> trace st' = trace st @ concat (replicate K
                 [Invoke_subject, Set_timeout (x_ms_between_retries (cells st ! a))])
           \<and> length (cells st') = length (cells st)
           \<and> cells st' ! a = (cells st ! a)\<lparr>retries_remaining := Num (of_nat (n - K))\<rparr>"
  using assms
proof (induction K arbitrary: st n)
  case 0
  then show ?case by (intro exI [of _ st]) simp
next
  case (Suc K)
  from Suc.prems(4) obtain e where e: "attempt subj 0 (world st) = Rejects e"
    by auto
  define st1 where "st1 = st\<lparr>world := world_after subj 1 (world st), trace := trace st @ [Invoke_subject]\<rparr>"
  have cs: "call_subject subj st = (Rejects e, st1)"
    by (simp add: call_subject_eq e st1_def)
  define env where "env = cells st ! a"
  define st2 where "st2 = st1\<lparr>cells := (cells st1)[a := env\<lparr>retries_remaining := Num (of_nat (n - 1))\<rparr>],
         trace := trace st1 @ [Set_timeout (x_ms_between_retries env)]\<rparr>"
  have n: "0 < n" using Suc.prems(3) by simp
  have m: "minus_one (Num (of_nat n)) = Num (of_nat (n - 1))"
    using n Suc.prems(5) by (rule minus_one_of_nat)
  have cc: "call_fn ext (Closure a) e st1 = (Resolves JUndefined, st2)"
    using Suc.prems(1,2) n m
    by (simp add: closure_call_proceed st1_def st2_def env_def)
  have step: "subject_caller ext subj (Closure a) st = subject_caller ext subj (Closure a) st2"
    by (rule subject_caller_proceed [OF cs cc])
  have a2: "a < length (cells st2)"
    using Suc.prems(1) by (simp add: st2_def st1_def)
  have r2: "retries_remaining (cells st2 ! a) = Num (of_nat (n - 1))"
    using Suc.prems(1) by (simp add: st2_def st1_def)
  have k2: "K \<le> n - 1" using Suc.prems(3) by simp
  have b2: "n - 1 \<le> 2 ^ 53" using Suc.prems(5) by simp
  have w2: "world st2 = snd (subj (world st))"
    by (simp add: st2_def st1_def)
  have f2: "\<forall>i<K. \<exists>e. attempt subj i (world st2) = Rejects e"
  proof (intro allI impI)
    fix i assume "i < K"
    then have "Suc i < Suc K" by simp
    with Suc.prems(4) obtain e' where "attempt subj (Suc i) (world st) = Rejects e'"
      by blast
    then show "\<exists>e. attempt subj i (world st2) = Rejects e"
      by (simp add: attempt_def w2)
  qed
  from Suc.IH [OF a2 r2 k2 f2 b2] obtain st' where
    st': "subject_caller ext subj (Closure a) st2 = subject_caller ext subj (Closure a) st'"
      "world st' = world_after subj K (world st2)"
      "trace st' = trace st2 @ concat (replicate K
                 [Invoke_subject, Set_timeout (x_ms_between_retries (cells st2 ! a))])"
      "length (cells st') = length (cells st2)"
      "cells st' ! a = (cells st2 ! a)\<lparr>retries_remaining := Num (of_nat (n - 1 - K))\<rparr>"
    by blast
  have x2: "x_ms_between_retries (cells st2 ! a) = x_ms_between_retries (cells st ! a)"
    using Suc.prems(1) by (simp add: st2_def st1_def env_def)
  have c2: "(cells st2 ! a)\<lparr>retries_remaining := Num (of_nat (n - 1 - K))\<rparr>
          = (cells st ! a)\<lparr>retries_remaining := Num (of_nat (n - Suc K))\<rparr>"
    using Suc.prems(1) by (simp add: st2_def st1_def env_def)
  show ?case
  proof (intro exI [of _ st'] conjI)
    show "subject_caller ext subj (Closure a) st = subject_caller ext subj (Closure a) st'"
      using step st'(1) by simp
    show "world st' = world_after subj (Suc K) (world st)"
      using st'(2) w2 by simp
    show "trace st' = trace st @ concat (replicate (Suc K)
                 [Invoke_subject, Set_timeout (x_ms_between_retries (cells st ! a))])"
      using st'(3) x2 by (simp add: st2_def st1_def env_def)
    show "length (cells st') = length (cells st)"
      using st'(4) by (simp add: st2_def st1_def)
    show "cells st' ! a = (cells st ! a)\<lparr>retries_remaining := Num (of_nat (n - Suc K))\<rparr>"
      using st'(5) c2 by simp
  qed
qed

lemma constant_timer_retry_eq:
  "constant_timer_retry x n st =
     (Closure (length (cells st)),
      st\<lparr>cells := cells st @ [\<lparr>x_ms_between_retries = math_floor x, n_retries = math_floor n,
                                retries_remaining = math_floor n\<rparr>]\<rparr>)"
  by (simp add: constant_timer_retry_def Let_def)

lemma retrier_function:
  "retrier ext subj (JFun f) st = Promise (subject_caller ext subj f st)"
  by (simp add: retrier_def retrier_validate_def)

lemma count_rounds:
  "count_list (concat (replicate K [Invoke_subject, Set_timeout d])) Invoke_subject = K"
  by (induction K) simp_all

lemma world_after_flaky: "world_after (flaky K) k w = w + k"
  by (induction k arbitrary: w) (simp_all add: flaky_def)

lemma attempt_flaky:
  "attempt (flaky K) i w = (if w + i < K then Rejects (JNum (Num (of_nat (w + i)))) else Resolves (JStr ''ok''))"
  by (simp add: attempt_def world_after_flaky) (simp add: flaky_def)

section \<open>Runs that never end\<close>

lemma never_zero_neq_zero: "never_zero c \<Longrightarrow> neq_zero c"
  unfolding never_zero_def by (drule spec [of _ 0]) simp

lemma never_zero_minus_one:
  assumes "never_zero c"
  shows "never_zero (minus_one c)"
  unfolding never_zero_def
proof
  fix k
  from assms have "neq_zero ((minus_one ^^ Suc k) c)"
    unfolding never_zero_def by (rule spec)
  then show "neq_zero ((minus_one ^^ k) (minus_one c))"
    by (simp only: funpow_Suc_right o_apply)
qed

lemma fixed_point_never_zero:
  assumes "minus_one c = c" and "neq_zero c"
  shows "never_zero c"
proof -
  have "(minus_one ^^ k) c = c" for k
    by (induction k) (simp_all add: assms(1))
  with assms(2) show ?thesis
    by (simp add: never_zero_def)
qed

lemma closure_call_never_zero:
  assumes "a < length (cells st)" and "never_zero (retries_remaining (cells st ! a))"
  shows "fst (closure_call a err st) = Resolves JUndefined"
    and "a < length (cells (snd (closure_call a err st)))"
    and "never_zero (retries_remaining (cells (snd (closure_call a err st)) ! a))"
  using assms
  by (simp_all add: closure_call_proceed never_zero_neq_zero never_zero_minus_one
      del: minus_one.simps)

lemma endless_step:
  assumes IH: "\<And>st' y'. g ext subj f st' = Some y' \<Longrightarrow> \<not> endless subj f st'"
    and F: "(case call_subject subj st of
        (Resolves v, st1) \<Rightarrow> Some (Resolves v, st1)
      | (Rejects err, st1) \<Rightarrow>
          (case call_fn ext f err st1 of
             (Resolves u, st2) \<Rightarrow> g ext subj f st2
           | (Rejects r, st2) \<Rightarrow> Some (Rejects r, st2)
           | (Never, st2) \<Rightarrow> Some (Never, st2))
      | (Never, st1) \<Rightarrow> Some (Never, st1)) = Some y"
  shows "\<not> endless subj f st"
proof
  assume e: "endless subj f st"
  then obtain a where f: "f = Closure a" and a: "a < length (cells st)"
    and n: "never_zero (retries_remaining (cells st ! a))"
    and fails: "\<forall>w. \<exists>e. fst (subj w) = Rejects e"
    unfolding endless_def by blast
  from fails obtain err where err: "attempt subj 0 (world st) = Rejects err"
    by (auto simp: attempt_def)
  define st1 where "st1 = st\<lparr>world := world_after subj 1 (world st), trace := trace st @ [Invoke_subject]\<rparr>"
  have cs: "call_subject subj st = (Rejects err, st1)"
    by (simp add: call_subject_eq err st1_def)
  have a1: "a < length (cells st1)" and n1: "never_zero (retries_remaining (cells st1 ! a))"
    using a n by (simp_all add: st1_def)
  obtain p st2 where cc: "closure_call a err st1 = (p, st2)"
    by (cases "closure_call a err st1")
  from closure_call_never_zero [OF a1 n1, of err] cc
  have p: "p = Resolves JUndefined" and a2: "a < length (cells st2)"
    and n2: "never_zero (retries_remaining (cells st2 ! a))"
    by simp_all
  from F cs cc p f have "g ext subj f st2 = Some y"
    by simp
  from IH [OF this] have "\<not> endless subj f st2" .
  moreover have "endless subj f st2"
    unfolding endless_def using fails f a2 n2 by blast
  ultimately show False by contradiction
qed

lemma endless_never_settles:
  assumes "endless subj f st"
  shows "subject_caller ext subj f st = None"
proof (rule ccontr)
  assume "subject_caller ext subj f st \<noteq> None"
  then obtain y where y: "subject_caller ext subj f st = Some y"
    by blast
  have "\<not> endless subj f st"
    by (rule subject_caller.raw_induct [where P = "\<lambda>ext subj f st y. \<not> endless subj f st", OF _ y])
       (rule endless_step, assumption+)
  with assms show False by contradiction
qed

section \<open>The constant-delay policy against a failing subject\<close>

text \<open>
  Claim C1, as stated for every natural number \<open>N\<close>. It fails at \<open>N = 2 ^ 54\<close>: the counter
  is a double, \<open>2 ^ 54 - 1\<close> rounds back to \<open>2 ^ 54\<close>, and with a subject that always fails
  the promise of \<^verbatim>\<open>retrier\<close> never settles.
\<close>

theorem always_failing_subject_counterexample:
  "constant_timer_retry (Num 100) (Num (of_nat 18014398509481984))
       \<lparr>world = 0::nat, cells = [], trace = []\<rparr>
     = (Closure 0,
        \<lparr>world = 0, cells = [\<lparr>x_ms_between_retries = Num 100, n_retries = Num 18014398509481984,
                               retries_remaining = Num 18014398509481984\<rparr>], trace = []\<rparr>)
   \<and> retrier no_extern always_failing (JFun (Closure 0))
        \<lparr>world = 0, cells = [\<lparr>x_ms_between_retries = Num 100, n_retries = Num 18014398509481984,
                               retries_remaining = Num 18014398509481984\<rparr>], trace = []\<rparr>
     = Promise None"
proof -
  let ?st = "\<lparr>world = 0::nat, cells = [\<lparr>x_ms_between_retries = Num 100,
      n_retries = Num 18014398509481984, retries_remaining = Num 18014398509481984\<rparr>], trace = []\<rparr>"
  have "never_zero (Num 18014398509481984)"
    by (rule fixed_point_never_zero [OF minus_one_2_54]) simp
  then have "endless always_failing (Closure 0) ?st"
    by (simp add: endless_def always_failing_def)
  then have "subject_caller no_extern always_failing (Closure 0) ?st = None"
    by (rule endless_never_settles)
  then show ?thesis
    by (simp add: retrier_function constant_timer_retry_eq)
qed

text \<open>
  Claim C1, amended. With a constant-delay policy constructed with \<open>N \<le> 2 ^ 53\<close> retries
  (the counts that a double decrements exactly down to zero) and a subject whose first
  \<open>N + 1\<close> attempts all fail, \<^verbatim>\<open>retrier\<close> invokes the subject exactly \<open>N + 1\<close> times and its
  promise rejects with the reason of the last attempt. The trace is \<open>N\<close> rounds of an
  invocation followed by a timer of the floored delay, and one more invocation.
\<close>

theorem always_failing_subject:
  assumes "constant_timer_retry x (Num (of_nat N)) st0 = (f, st)"
    and "\<forall>i\<le>N. \<exists>e. attempt subj i (world st) = Rejects e"
    and "N \<le> 2 ^ 53"
  shows "\<exists>e st'. attempt subj N (world st) = Rejects e
           \<and> retrier ext subj (JFun f) st = Promise (Some (Rejects e, st'))
           \<and> invocations st' = invocations st + N + 1
           \<and> trace st' = trace st
               @ concat (replicate N [Invoke_subject, Set_timeout (math_floor x)])
               @ [Invoke_subject]"
proof -
  define a where "a = length (cells st0)"
  from assms(1) have f: "f = Closure a"
    and st: "st = st0\<lparr>cells := cells st0 @ [\<lparr>x_ms_between_retries = math_floor x,
               n_retries = Num (of_nat N), retries_remaining = Num (of_nat N)\<rparr>]\<rparr>"
    by (simp_all add: constant_timer_retry_eq a_def)
  have a: "a < length (cells st)" and r: "retries_remaining (cells st ! a) = Num (of_nat N)"
    and x: "x_ms_between_retries (cells st ! a) = math_floor x"
    by (simp_all add: st a_def)
  have fails: "\<forall>i<N. \<exists>e. attempt subj i (world st) = Rejects e"
    using assms(2) by auto
  from failing_rounds [OF a r le_refl fails assms(3), of ext] obtain st' where
    st': "subject_caller ext subj (Closure a) st = subject_caller ext subj (Closure a) st'"
      "world st' = world_after subj N (world st)"
      "trace st' = trace st @ concat (replicate N [Invoke_subject, Set_timeout (math_floor x)])"
      "length (cells st') = length (cells st)"
      "cells st' ! a = (cells st ! a)\<lparr>retries_remaining := Num (of_nat (N - N))\<rparr>"
    unfolding x by blast
  from assms(2) obtain e where e: "attempt subj N (world st) = Rejects e"
    by auto
  define st'' where "st'' = st'\<lparr>world := world_after subj 1 (world st'), trace := trace st' @ [Invoke_subject]\<rparr>"
  have cs: "call_subject subj st' = (Rejects e, st'')"
    using e by (simp add: call_subject_eq st''_def attempt_def st'(2))
  have cc: "call_fn ext (Closure a) e st'' = (Rejects e, st'')"
    using a st'(4,5) by (simp add: closure_call_abort st''_def)
  have "subject_caller ext subj (Closure a) st = Some (Rejects e, st'')"
    using subject_caller_abort [OF cs cc] st'(1) by simp
  moreover have "trace st'' = trace st
      @ concat (replicate N [Invoke_subject, Set_timeout (math_floor x)]) @ [Invoke_subject]"
    by (simp add: st''_def st'(3))
  moreover from this have "invocations st'' = invocations st + N + 1"
    by (simp add: invocations_def count_rounds)
  ultimately show ?thesis
    using e f by (auto simp: retrier_function)
qed

theorem always_failing_subject_witness:
  "\<exists>st'. retrier no_extern (flaky 5) (JFun (Closure 0))
           \<lparr>world = 0, cells = [\<lparr>x_ms_between_retries = Num 100, n_retries = Num 2,
                                  retries_remaining = Num 2\<rparr>], trace = []\<rparr>
         = Promise (Some (Rejects (JNum (Num 2)), st')) \<and> invocations st' = 3"
proof -
  have c: "constant_timer_retry (Num 100) (Num (of_nat 2)) \<lparr>world = 0::nat, cells = [], trace = []\<rparr>
      = (Closure 0, \<lparr>world = 0, cells = [\<lparr>x_ms_between_retries = Num 100, n_retries = Num 2,
                                  retries_remaining = Num 2\<rparr>], trace = []\<rparr>)"
    by (simp add: constant_timer_retry_eq)
  have h: "\<forall>i\<le>2. \<exists>e. attempt (flaky 5) i
      (world \<lparr>world = 0, cells = [\<lparr>x_ms_between_retries = Num 100, n_retries = Num 2,
                                  retries_remaining = Num 2\<rparr>], trace = []\<rparr>) = Rejects e"
    by (simp add: attempt_flaky)
  have b: "(2::nat) \<le> 2 ^ 53"
    by simp
  show ?thesis
    using always_failing_subject [OF c h b, of no_extern]
    by (auto simp: attempt_flaky invocations_def)
qed

text \<open>
  Claim C4. With a constant-delay policy whose retry count floors to 0 and a subject whose
  first attempt fails with \<open>e\<close>, the subject is invoked exactly once, no timer is set, and
  the promise of \<^verbatim>\<open>retrier\<close> rejects with \<open>e\<close>: the final state is the one after the single
  invocation.
\<close>

theorem zero_retries_single_attempt:
  assumes "constant_timer_retry x n st0 = (f, st)"
    and "math_floor n = Num 0"
    and "fst (subj (world st)) = Rejects e"
  shows "retrier ext subj (JFun f) st
           = Promise (Some (Rejects e,
               st\<lparr>world := snd (subj (world st)), trace := trace st @ [Invoke_subject]\<rparr>))
         \<and> invocations (st\<lparr>world := snd (subj (world st)), trace := trace st @ [Invoke_subject]\<rparr>)
           = invocations st + 1"
proof -
  define a where "a = length (cells st0)"
  define st1 where "st1 = st\<lparr>world := snd (subj (world st)), trace := trace st @ [Invoke_subject]\<rparr>"
  from assms(1,2) have f: "f = Closure a"
    and a: "a < length (cells st)" and r: "retries_remaining (cells st ! a) = Num 0"
    by (auto simp: constant_timer_retry_eq a_def)
  have cs: "call_subject subj st = (Rejects e, st1)"
    using assms(3) by (simp add: call_subject_eq attempt_def st1_def)
  have cc: "call_fn ext (Closure a) e st1 = (Rejects e, st1)"
    using a r by (simp add: closure_call_abort st1_def)
  have "subject_caller ext subj (Closure a) st = Some (Rejects e, st1)"
    by (rule subject_caller_abort [OF cs cc])
  then show ?thesis
    by (simp add: retrier_function f st1_def invocations_def)
qed

theorem zero_retries_single_attempt_witness:
  "retrier no_extern (flaky 1) (JFun (Closure 0))
      \<lparr>world = 0, cells = [\<lparr>x_ms_between_retries = Num 100, n_retries = Num 0,
                             retries_remaining = Num 0\<rparr>], trace = []\<rparr>
    = Promise (Some (Rejects (JNum (Num 0)),
      \<lparr>world = 1, cells = [\<lparr>x_ms_between_retries = Num 100, n_retries = Num 0,
                             retries_remaining = Num 0\<rparr>], trace = [Invoke_subject]\<rparr>))"
proof -
  have c: "constant_timer_retry (Num 100) (Num (1 / 2)) \<lparr>world = 0::nat, cells = [], trace = []\<rparr>
      = (Closure 0, \<lparr>world = 0, cells = [\<lparr>x_ms_between_retries = Num 100, n_retries = Num 0,
                                  retries_remaining = Num 0\<rparr>], trace = []\<rparr>)"
    by (simp add: constant_timer_retry_eq floor_eq_iff)
  have "\<lfloor>1 / 2 :: rat\<rfloor> = 0"
    by (simp add: floor_eq_iff)
  then have m: "math_floor (Num (1 / 2)) = Num 0"
    by simp
  have h: "fst (flaky 1 (world \<lparr>world = 0, cells = [\<lparr>x_ms_between_retries = Num 100,
      n_retries = Num 0, retries_remaining = Num 0\<rparr>], trace = []\<rparr>)) = Rejects (JNum (Num 0))"
    by (simp add: flaky_def)
  show ?thesis
    using zero_retries_single_attempt [where subj = "flaky 1" and ext = no_extern, OF c m h]
    by (simp add: flaky_def)
qed




section \<open>The reason of a failed run\<close>

lemma rounds_same_outcome:
  "(retry_round ext subj f)\<^sup>*\<^sup>* st st' \<Longrightarrow>
   subject_caller ext subj f st = subject_caller ext subj f st'"
proof (induction rule: rtranclp_induct)
  case base
  show ?case by simp
next
  case (step y z)
  from step.hyps(2) obtain err st1 u where "call_subject subj y = (Rejects err, st1)"
    and "call_fn ext f err st1 = (Resolves u, z)"
    by (auto elim: retry_round.cases)
  then have "subject_caller ext subj f y = subject_caller ext subj f z"
    by (rule subject_caller_proceed)
  with step.IH show ?case by simp
qed

lemma aborted_by_step:
  assumes IH: "\<And>st' y'. g ext subj f st' = Some y' \<Longrightarrow> aborted_by ext subj f st' y'"
    and F: "(case call_subject subj st of
        (Resolves v, st1) \<Rightarrow> Some (Resolves v, st1)
      | (Rejects err, st1) \<Rightarrow>
          (case call_fn ext f err st1 of
             (Resolves u, st2) \<Rightarrow> g ext subj f st2
           | (Rejects r, st2) \<Rightarrow> Some (Rejects r, st2)
           | (Never, st2) \<Rightarrow> Some (Never, st2))
      | (Never, st1) \<Rightarrow> Some (Never, st1)) = Some y"
  shows "aborted_by ext subj f st y"
proof -
  obtain p st1 where cs: "call_subject subj st = (p, st1)"
    by (cases "call_subject subj st")
  show ?thesis
  proof (cases p)
    case (Resolves v)
    with F cs show ?thesis by (auto simp: aborted_by_def)
  next
    case Never
    with F cs show ?thesis by (auto simp: aborted_by_def)
  next
    case (Rejects err)
    note p = this
    obtain q st2 where cc: "call_fn ext f err st1 = (q, st2)"
      by (cases "call_fn ext f err st1")
    show ?thesis
    proof (cases q)
      case (Resolves u)
      with F cs cc p have g: "g ext subj f st2 = Some y"
        by simp
      have rr: "retry_round ext subj f st st2"
        using cs cc p Resolves by (auto intro: retry_roundI)
      show ?thesis
        unfolding aborted_by_def
      proof (intro allI impI)
        fix r' st3 assume "y = (Rejects r', st3)"
        with IH [OF g] obtain st_k r st1' where
          "(retry_round ext subj f)\<^sup>*\<^sup>* st2 st_k"
          "call_subject subj st_k = (Rejects r, st1')"
          "call_fn ext f r st1' = (Rejects r', st3)"
          unfolding aborted_by_def by blast
        with rr show "\<exists>st_k r st1. (retry_round ext subj f)\<^sup>*\<^sup>* st st_k
              \<and> call_subject subj st_k = (Rejects r, st1)
              \<and> call_fn ext f r st1 = (Rejects r', st3)"
          by (blast intro: converse_rtranclp_into_rtranclp)
      qed
    next
      case (Rejects r)
      with F cs cc p have "y = (Rejects r, st2)"
        by simp
      with cs cc p Rejects show ?thesis
        unfolding aborted_by_def by blast
    next
      case Never
      with F cs cc p show ?thesis by (auto simp: aborted_by_def)
    qed
  qed
qed

lemma subject_caller_rejects_D:
  assumes "subject_caller ext subj f st = Some y"
  shows "aborted_by ext subj f st y"
  by (rule subject_caller.raw_induct [where P = aborted_by, OF _ assms])
     (rule aborted_by_step, assumption+)

text \<open>
  Claim C6. For every subject and every retry function \<open>f\<close> that \<^verbatim>\<open>retrier\<close> resolved, the
  promise of \<^verbatim>\<open>retrier\<close> rejects with \<open>r'\<close> exactly when, after some rounds of retry, an
  attempt fails with some reason \<open>r\<close> and \<open>f\<close>, called on \<open>r\<close>, rejects with \<open>r'\<close>. The reason
  surfaced is the single one of the aborting call, whether or not it equals \<open>r\<close>, and no
  reason of an earlier attempt is part of it.
\<close>

theorem abort_reason_is_final_reason:
  assumes "retrier_validate retry_controller st0 = (Inr f, st)"
  shows "retrier ext subj retry_controller st0 = Promise (Some (Rejects r', st2)) \<longleftrightarrow>
           (\<exists>st_k r st1. (retry_round ext subj f)\<^sup>*\<^sup>* st st_k
              \<and> call_subject subj st_k = (Rejects r, st1)
              \<and> call_fn ext f r st1 = (Rejects r', st2))"
proof -
  have r: "retrier ext subj retry_controller st0 = Promise (subject_caller ext subj f st)"
    using assms by (simp add: retrier_def)
  show ?thesis
  proof
    assume "retrier ext subj retry_controller st0 = Promise (Some (Rejects r', st2))"
    then have "subject_caller ext subj f st = Some (Rejects r', st2)"
      using r by simp
    from subject_caller_rejects_D [OF this, unfolded aborted_by_def]
    show "\<exists>st_k r st1. (retry_round ext subj f)\<^sup>*\<^sup>* st st_k
              \<and> call_subject subj st_k = (Rejects r, st1)
              \<and> call_fn ext f r st1 = (Rejects r', st2)"
      by blast
  next
    assume "\<exists>st_k r st1. (retry_round ext subj f)\<^sup>*\<^sup>* st st_k
              \<and> call_subject subj st_k = (Rejects r, st1)
              \<and> call_fn ext f r st1 = (Rejects r', st2)"
    then obtain st_k r st1 where k: "(retry_round ext subj f)\<^sup>*\<^sup>* st st_k"
      and cs: "call_subject subj st_k = (Rejects r, st1)"
      and cc: "call_fn ext f r st1 = (Rejects r', st2)"
      by blast
    have "subject_caller ext subj f st = subject_caller ext subj f st_k"
      by (rule rounds_same_outcome [OF k])
    also have "\<dots> = Some (Rejects r', st2)"
      by (rule subject_caller_abort [OF cs cc])
    finally show "retrier ext subj retry_controller st0 = Promise (Some (Rejects r', st2))"
      using r by simp
  qed
qed

theorem abort_reason_is_final_reason_witness:
  "retrier substituting (flaky 5) (JFun (Extern 0)) \<lparr>world = 0, cells = [], trace = []\<rparr>
     = Promise (Some (Rejects (JStr ''giving up''),
         \<lparr>world = 2, cells = [], trace = [Invoke_subject, Invoke_subject]\<rparr>))"
proof -
  have v: "retrier_validate (JFun (Extern 0)) \<lparr>world = 0::nat, cells = [], trace = []\<rparr>
      = (Inr (Extern 0), \<lparr>world = 0, cells = [], trace = []\<rparr>)"
    by (simp add: retrier_validate_def)
  have "retry_round substituting (flaky 5) (Extern 0) \<lparr>world = 0, cells = [], trace = []\<rparr>
      \<lparr>world = 1, cells = [], trace = [Invoke_subject]\<rparr>"
    by (rule retry_roundI [where err = "JNum (Num 0)" and u = JUndefined
          and ?st1.0 = "\<lparr>world = 1, cells = [], trace = [Invoke_subject]\<rparr>"])
       (simp_all add: call_subject_def flaky_def substituting_def)
  then have "\<exists>st_k r st1.
      (retry_round substituting (flaky 5) (Extern 0))\<^sup>*\<^sup>* \<lparr>world = 0, cells = [], trace = []\<rparr> st_k
      \<and> call_subject (flaky 5) st_k = (Rejects r, st1)
      \<and> call_fn substituting (Extern 0) r st1
          = (Rejects (JStr ''giving up''),
             \<lparr>world = 2, cells = [], trace = [Invoke_subject, Invoke_subject]\<rparr>)"
    by (intro exI [of _ "\<lparr>world = 1, cells = [], trace = [Invoke_subject]\<rparr>"]
          exI [of _ "JNum (Num 1)"]
          exI [of _ "\<lparr>world = 2, cells = [], trace = [Invoke_subject, Invoke_subject]\<rparr>"] conjI)
       (simp_all add: call_subject_def flaky_def substituting_def)
  then show ?thesis
    using abort_reason_is_final_reason [OF v, of substituting "flaky 5"] by blast
qed

section \<open>A negative retry count\<close>

lemma negative_neq_zero: "negative c \<Longrightarrow> neq_zero c"
  by (cases c) simp_all

lemma negative_minus_one:
  assumes "negative c"
  shows "negative (minus_one c)"
proof (cases c)
  case (Num q)
  with assms have "q - 1 \<le> - 1"
    by simp
  then have "negative (round_double (q - 1))"
    by (rule round_double_negative)
  with Num show ?thesis by simp
qed (use assms in simp_all)

lemma negative_never_zero:
  assumes "negative c"
  shows "never_zero c"
proof -
  have "negative ((minus_one ^^ k) c)" for k
    by (induction k) (simp_all add: assms negative_minus_one del: minus_one.simps)
  then show ?thesis
    by (simp add: never_zero_def negative_neq_zero)
qed

lemma negative_math_floor: "negative n \<Longrightarrow> negative (math_floor n)"
proof (cases n)
  case (Num q)
  assume "negative n"
  with Num have "q < 0" by simp
  then have "\<lfloor>q\<rfloor> < 0" by (simp add: floor_less_iff)
  then have "(of_int \<lfloor>q\<rfloor> :: rat) < 0" by simp
  with Num show ?thesis by simp
qed simp_all

lemma closure_call_negative:
  assumes "a < length (cells st)" and "negative (retries_remaining (cells st ! a))"
  shows "fst (closure_call a err st) = Resolves JUndefined"
    and "a < length (cells (snd (closure_call a err st)))"
    and "negative (retries_remaining (cells (snd (closure_call a err st)) ! a))"
    and "world (snd (closure_call a err st)) = world st"
  using assms
  by (simp_all add: closure_call_proceed negative_neq_zero negative_minus_one
      del: minus_one.simps)

lemma call_many_Cons:
  "fst (call_many ext f (err # errs) st)
     = fst (call_fn ext f err st) # fst (call_many ext f errs (snd (call_fn ext f err st)))"
  "snd (call_many ext f (err # errs) st) = snd (call_many ext f errs (snd (call_fn ext f err st)))"
  by (simp_all split: prod.splits)

lemma call_many_negative:
  assumes "a < length (cells st)" and "negative (retries_remaining (cells st ! a))"
  shows "fst (call_many ext (Closure a) errs st) = replicate (length errs) (Resolves JUndefined)
       \<and> a < length (cells (snd (call_many ext (Closure a) errs st)))
       \<and> negative (retries_remaining (cells (snd (call_many ext (Closure a) errs st)) ! a))"
  using assms
proof (induction errs arbitrary: st)
  case Nil
  then show ?case by simp
next
  case (Cons err errs)
  obtain p st1 where c: "closure_call a err st = (p, st1)"
    by (cases "closure_call a err st")
  from closure_call_negative [OF Cons.prems, of err] c
  have p: "p = Resolves JUndefined" and a1: "a < length (cells st1)"
    and n1: "negative (retries_remaining (cells st1 ! a))"
    by simp_all
  from Cons.IH [OF a1 n1] c p show ?case
    by (simp add: call_many_Cons del: call_many.simps)
qed

text \<open>
  Claim C8. When \<^verbatim>\<open>constant_timer_retry\<close> receives a negative retry count, then for every
  sequence of invocations of the function it returns, every invocation resolves (the
  abort branch is never taken) and the counter differs from zero afterwards; hence with a
  subject that always fails the promise of \<^verbatim>\<open>retrier\<close> never settles.
\<close>

theorem negative_retry_count_never_aborts:
  assumes "constant_timer_retry x n st0 = (f, st)"
    and "negative n"
  shows "fst (call_many ext f errs st) = replicate (length errs) (Resolves JUndefined)
       \<and> neq_zero (retries_remaining (cells (snd (call_many ext f errs st)) ! length (cells st0)))
       \<and> ((\<forall>w. \<exists>e. fst (subj w) = Rejects e) \<longrightarrow> retrier ext subj (JFun f) st = Promise None)"
proof -
  define a where "a = length (cells st0)"
  from assms(1) have f: "f = Closure a"
    and a: "a < length (cells st)" and r: "retries_remaining (cells st ! a) = math_floor n"
    by (auto simp: constant_timer_retry_eq a_def)
  have n: "negative (retries_remaining (cells st ! a))"
    using assms(2) r by (simp add: negative_math_floor)
  from call_many_negative [OF a n, of ext errs]
  have "fst (call_many ext f errs st) = replicate (length errs) (Resolves JUndefined)"
    and "neq_zero (retries_remaining (cells (snd (call_many ext f errs st)) ! a))"
    by (simp_all add: f negative_neq_zero)
  moreover have "retrier ext subj (JFun f) st = Promise None"
    if "\<forall>w. \<exists>e. fst (subj w) = Rejects e"
  proof -
    have "endless subj f st"
      unfolding endless_def using that f a negative_never_zero [OF n] by blast
    then show ?thesis
      by (simp add: retrier_function endless_never_settles)
  qed
  ultimately show ?thesis
    by (simp add: a_def)
qed

theorem negative_retry_count_never_aborts_witness:
  "fst (call_many no_extern (Closure 0) [JStr ''a'', JStr ''b'', JStr ''c'']
          \<lparr>world = 0, cells = [\<lparr>x_ms_between_retries = Num 100, n_retries = Num (- 1),
                                 retries_remaining = Num (- 1)\<rparr>], trace = []\<rparr>)
     = [Resolves JUndefined, Resolves JUndefined, Resolves JUndefined]
   \<and> retrier no_extern always_failing (JFun (Closure 0))
          \<lparr>world = 0, cells = [\<lparr>x_ms_between_retries = Num 100, n_retries = Num (- 1),
                                 retries_remaining = Num (- 1)\<rparr>], trace = []\<rparr>
     = Promise None"
proof -
  have "\<lfloor>- (1 / 2) :: rat\<rfloor> = - 1"
    by (simp add: floor_eq_iff)
  then have c: "constant_timer_retry (Num 100) (Num (- 1 / 2)) \<lparr>world = 0::nat, cells = [], trace = []\<rparr>
      = (Closure 0, \<lparr>world = 0, cells = [\<lparr>x_ms_between_retries = Num 100, n_retries = Num (- 1),
                                  retries_remaining = Num (- 1)\<rparr>], trace = []\<rparr>)"
    by (simp add: constant_timer_retry_eq)
  have n: "negative (Num (- 1 / 2))"
    by simp
  have s: "\<forall>w. \<exists>e. fst (always_failing w) = Rejects e"
    by (simp add: always_failing_def)
  show ?thesis
    using negative_retry_count_never_aborts [OF c n, of no_extern "[JStr ''a'', JStr ''b'', JStr ''c'']"
        always_failing] s
    by simp
qed

section \<open>Closures and their cells\<close>



lemma retry_fn_args_are_numbers:
  assumes "map_of retry_fn name = Some e"
    and "params_forEach name pobj (params e) [] = Inr arg_vals"
  shows "\<exists>x n. arg_vals = [JNum x, JNum n]"
proof -
  from assms(1) have p: "params e = [(''x_ms_between_retries'', ''number''), (''n_retries'', ''number'')]"
    by (auto simp: retry_fn_def split: if_splits)
  have num: "\<exists>x. v = JNum x" if "typeof v = ''number''" for v
    using that by (cases v) simp_all
  from assms(2) show ?thesis
    unfolding p
    by (auto simp: Let_def split: sum.splits if_splits dest!: num)
qed

text \<open>\<^verbatim>\<open>retrier\<close> never meets an argument that \<^verbatim>\<open>Math.floor\<close> would have to coerce.\<close>

lemma retrier_validate_inside_model:
  "fst (retrier_validate retry_controller st) \<noteq> Inl Outside_model"
proof (cases retry_controller)
  case (JObj kvs)
  show ?thesis
  proof (cases "retrier_validate (JObj kvs) st")
    case (Pair r st')
    show ?thesis
    proof (cases r)
      case (Inr f)
      with Pair JObj show ?thesis by simp
    next
      case (Inl err)
      have "err \<noteq> Outside_model"
      proof
        assume o: "err = Outside_model"
        from Pair Inl o obtain name e pobj where e: "map_of retry_fn name = Some e"
          and c: "(case params_forEach name pobj (params e) [] of
                     Inl err \<Rightarrow> (Inl err, st)
                   | Inr arg_vals \<Rightarrow> call_predefined (fn e) arg_vals st) = (Inl Outside_model, st')"
          by (auto simp: retrier_validate_def split: list.splits option.splits sum.splits if_splits)
        have p: "params e = [(''x_ms_between_retries'', ''number''), (''n_retries'', ''number'')]"
          using e by (auto simp: retry_fn_def split: if_splits)
        show False
        proof (cases "params_forEach name pobj (params e) []")
          case (Inl err')
          with c have "params_forEach name pobj (params e) [] = Inl Outside_model"
            by simp
          then show False
            unfolding p by (auto simp: Let_def split: sum.splits if_splits elim: js_get.elims)
        next
          case (Inr arg_vals)
          from retry_fn_args_are_numbers [OF e Inr] obtain x n where "arg_vals = [JNum x, JNum n]"
            by blast
          moreover have "fn e = Constant_timer_retry"
            by (cases "fn e") simp
          ultimately show False
            using c Inr by (simp add: constant_timer_retry_eq)
        qed
      qed
      with Pair Inl JObj show ?thesis by simp
    qed
  qed
qed (simp_all add: retrier_validate_def)

section \<open>Descriptors that do not resolve\<close>

lemma params_forEach_throws:
  assumes "list_ex (\<lambda>(key, expected).
             param_missing pobj key \<or> param_wrongly_typed pobj key expected) keyobjs"
  shows "\<exists>e. params_forEach name pobj keyobjs arg_vals = Inl e"
  using assms
proof (induction keyobjs arbitrary: arg_vals)
  case Nil
  then show ?case by simp
next
  case (Cons keyobj keyobjs)
  obtain key expected where k: "keyobj = (key, expected)"
    by (cases keyobj)
  show ?case
  proof (cases "param_missing pobj key \<or> param_wrongly_typed pobj key expected")
    case True
    then show ?thesis
      unfolding k
      by (cases pobj) (auto simp: Let_def split: option.splits)
  next
    case False
    with Cons.prems k have "list_ex (\<lambda>(key, expected).
             param_missing pobj key \<or> param_wrongly_typed pobj key expected) keyobjs"
      by simp
    from Cons.IH [OF this] show ?thesis
      unfolding k
      by (auto simp: Let_def split: sum.splits)
  qed
qed

lemma own_property_of_key:
  assumes "object_keys kvs = [name]"
  shows "own_property kvs name \<noteq> None"
proof -
  have "name \<in> set (object_keys kvs)"
    by (simp add: assms)
  then have "name \<in> fst ` set (rev kvs)"
    by (simp add: object_keys_def)
  then show ?thesis
    unfolding own_property_def by (simp only: map_of_eq_None_iff not_not)
qed

text \<open>
  Claim C3. For every malformed descriptor (not a function and not a mapping with a single
  key, or naming an unregistered policy, or with a missing or wrongly typed parameter),
  \<^verbatim>\<open>retrier\<close> throws: no promise is returned, and the state is the one it was called in, so
  that the subject has been invoked zero times and the loop never started.
\<close>

theorem malformed_descriptor_throws:
  assumes "malformed retry_controller"
  shows "\<exists>e st'. retrier ext subj retry_controller st = Throws e st'
           \<and> invocations st' = invocations st \<and> trace st' = trace st \<and> st' = st"
proof (cases retry_controller)
  case (JObj kvs)
  show ?thesis
  proof (cases "\<exists>name. object_keys kvs = [name]")
    case False
    then show ?thesis
      by (auto simp: retrier_def retrier_validate_def JObj split: list.splits)
  next
    case True
    then obtain name where n: "object_keys kvs = [name]"
      by blast
    show ?thesis
    proof (cases "map_of retry_fn name")
      case None
      with n show ?thesis
        by (simp add: retrier_def retrier_validate_def JObj)
    next
      case (Some e)
      show ?thesis
      proof (cases "own_property kvs name")
        case None
        with own_property_of_key [OF n] show ?thesis
          by simp
      next
        case (Some pobj)
        with assms n \<open>map_of retry_fn name = Some e\<close>
        have "list_ex (\<lambda>(key, expected).
             param_missing pobj key \<or> param_wrongly_typed pobj key expected) (params e)"
          by (simp add: JObj)
        from params_forEach_throws [OF this, of name "[]"] obtain err where
          "params_forEach name pobj (params e) [] = Inl err"
          by blast
        with n Some \<open>map_of retry_fn name = Some e\<close> show ?thesis
          by (simp add: retrier_def retrier_validate_def JObj)
      qed
    qed
  qed
qed (use assms in \<open>simp_all add: retrier_def retrier_validate_def\<close>)

theorem malformed_descriptor_throws_witness:
  "retrier no_extern always_failing
     (JObj [(''constant_timer_retry'',
             JObj [(''x_ms_between_retries'', JStr ''100''), (''n_retries'', JNum (Num 3))])])
     \<lparr>world = 0, cells = [], trace = []\<rparr>
   = Throws (Incorrect_type ''constant_timer_retry'' ''x_ms_between_retries'' ''string'' ''number'')
       \<lparr>world = 0, cells = [], trace = []\<rparr>"
proof -
  let ?d = "JObj [(''constant_timer_retry'',
             JObj [(''x_ms_between_retries'', JStr ''100''), (''n_retries'', JNum (Num 3))])]"
  have m: "malformed ?d"
    by (simp add: object_keys_def own_property_def retry_fn_def)
  show ?thesis
    using malformed_descriptor_throws [OF m, of no_extern always_failing
        "\<lparr>world = 0, cells = [], trace = []\<rparr>"]
    by (simp add: retrier_def retrier_validate_def object_keys_def own_property_def retry_fn_def)
qed

section \<open>The test for a missing parameter\<close>

text \<open>
  Line 37 tests the value of the parameter for truthiness, not the key for presence. A
  declared parameter that is present with a truthy value of the declared type is collected,
  in declared order, and no other key of the parameter object is read.
\<close>

lemma params_forEach_collects:
  assumes "list_all (\<lambda>(key, expected). \<exists>v. own_property pkvs key = Some v
             \<and> typeof v = expected \<and> truthy v) keyobjs"
  shows "params_forEach name (JObj pkvs) keyobjs arg_vals
           = Inr (arg_vals @ map (\<lambda>(key, expected). the (own_property pkvs key)) keyobjs)"
  using assms
  by (induction keyobjs arbitrary: arg_vals) (auto simp: Let_def)

lemma extra_parameters_ignored:
  assumes "own_property pkvs ''x_ms_between_retries'' = Some (JNum x)"
    and "own_property pkvs ''n_retries'' = Some (JNum n)"
    and "truthy (JNum x)" and "truthy (JNum n)"
  shows "retrier_validate (JObj [(''constant_timer_retry'', JObj pkvs)]) st
           = (case constant_timer_retry x n st of (f, st') \<Rightarrow> (Inr f, st'))"
  using assms
  by (simp add: retrier_validate_def object_keys_def own_property_def [of "[_]"] retry_fn_def)

text \<open>
  Claim C2. The claim is that a declared parameter is reported as missing exactly when its
  key is missing, and never when it is present with a value of the declared type such as
  0. The code reports it: in the descriptor below the key \<^verbatim>\<open>x_ms_between_retries\<close> is present
  with the number 0, and \<^verbatim>\<open>retrier\<close> throws "constant_timer_retry is missing a property:
  x_ms_between_retries".
\<close>

theorem zero_valued_parameter_reported_missing:
  "\<not> param_missing
        (JObj [(''x_ms_between_retries'', JNum (Num 0)), (''n_retries'', JNum (Num 3))])
        ''x_ms_between_retries''
   \<and> retrier ext subj
        (JObj [(''constant_timer_retry'',
                JObj [(''x_ms_between_retries'', JNum (Num 0)), (''n_retries'', JNum (Num 3))])])
        st
      = Throws (Missing_property ''constant_timer_retry'' ''x_ms_between_retries'') st"
  by (simp add: retrier_def retrier_validate_def object_keys_def own_property_def retry_fn_def)

text \<open>
  Claim C10. The claim is that a descriptor with every declared parameter present and
  correctly typed resolves, whatever further keys its parameter object has. The descriptor
  below is of that kind (it is not malformed), with the retry count 0 and one further
  key, and \<^verbatim>\<open>retrier\<close> throws "constant_timer_retry is missing a property: n_retries"; for
  truthy values \<open>extra_parameters_ignored\<close> holds.
\<close>

theorem well_typed_descriptor_with_extra_key_rejected:
  "\<not> malformed
        (JObj [(''constant_timer_retry'',
                JObj [(''x_ms_between_retries'', JNum (Num 100)), (''n_retries'', JNum (Num 0)),
                      (''note'', JStr ''extra'')])])
   \<and> retrier ext subj
        (JObj [(''constant_timer_retry'',
                JObj [(''x_ms_between_retries'', JNum (Num 100)), (''n_retries'', JNum (Num 0)),
                      (''note'', JStr ''extra'')])])
        st
      = Throws (Missing_property ''constant_timer_retry'' ''n_retries'') st"
  by (simp add: retrier_def retrier_validate_def object_keys_def own_property_def retry_fn_def)

section \<open>Rounding of the construction parameters\<close>

text \<open>
  Claim C7, as stated: both construction inputs are truncated toward zero, so that - 0.5
  yields 0. It fails at - 0.5, where the code stores - 1.
\<close>

theorem floor_is_not_truncation_counterexample:
  "cells (snd (constant_timer_retry (Num (- 1 / 2)) (Num (- 1 / 2))
       \<lparr>world = (), cells = [], trace = []\<rparr>))
     = [\<lparr>x_ms_between_retries = Num (- 1), n_retries = Num (- 1), retries_remaining = Num (- 1)\<rparr>]
   \<and> trunc_toward_zero (- 1 / 2) = 0"
proof -
  have "\<lfloor>- (1 / 2) :: rat\<rfloor> = - 1"
    by (simp add: floor_eq_iff)
  moreover have "\<lceil>- (1 / 2) :: rat\<rceil> = 0"
    by (simp add: ceiling_eq_iff)
  ultimately show ?thesis
    by (simp add: constant_timer_retry_eq trunc_toward_zero_def)
qed

text \<open>
  Claim C7, amended. Both construction inputs are rounded down by \<^verbatim>\<open>Math.floor\<close>: the stored
  delay and retry count are the greatest integers not above the inputs. For an input that
  is not negative this is truncation toward zero; a negative fractional input is rounded
  away from zero, one below its truncation.
\<close>

theorem construction_inputs_are_floored:
  assumes "constant_timer_retry (Num x) (Num n) st = (f, st')"
  shows "cells st' ! length (cells st)
           = \<lparr>x_ms_between_retries = Num (of_int \<lfloor>x\<rfloor>), n_retries = Num (of_int \<lfloor>n\<rfloor>),
              retries_remaining = Num (of_int \<lfloor>n\<rfloor>)\<rparr>
       \<and> of_int \<lfloor>x\<rfloor> \<le> x \<and> x < of_int \<lfloor>x\<rfloor> + 1
       \<and> of_int \<lfloor>n\<rfloor> \<le> n \<and> n < of_int \<lfloor>n\<rfloor> + 1
       \<and> (0 \<le> x \<longrightarrow> \<lfloor>x\<rfloor> = trunc_toward_zero x)
       \<and> (0 \<le> n \<longrightarrow> \<lfloor>n\<rfloor> = trunc_toward_zero n)
       \<and> (x < 0 \<and> of_int \<lfloor>x\<rfloor> \<noteq> x \<longrightarrow> \<lfloor>x\<rfloor> = trunc_toward_zero x - 1)
       \<and> (n < 0 \<and> of_int \<lfloor>n\<rfloor> \<noteq> n \<longrightarrow> \<lfloor>n\<rfloor> = trunc_toward_zero n - 1)"
proof -
  have c: "\<lfloor>q\<rfloor> = \<lceil>q\<rceil> - 1" if "of_int \<lfloor>q\<rfloor> \<noteq> q" for q :: rat
    using that by (simp add: ceiling_altdef)
  from assms have "cells st' ! length (cells st)
           = \<lparr>x_ms_between_retries = Num (of_int \<lfloor>x\<rfloor>), n_retries = Num (of_int \<lfloor>n\<rfloor>),
              retries_remaining = Num (of_int \<lfloor>n\<rfloor>)\<rparr>"
    by (auto simp: constant_timer_retry_eq)
  moreover have "of_int \<lfloor>x\<rfloor> \<le> x" "x < of_int \<lfloor>x\<rfloor> + 1" "of_int \<lfloor>n\<rfloor> \<le> n" "n < of_int \<lfloor>n\<rfloor> + 1"
    by linarith+
  ultimately show ?thesis
    by (simp add: trunc_toward_zero_def c)
qed

theorem construction_inputs_are_floored_witness:
  "cells (snd (constant_timer_retry (Num (5 / 2)) (Num (- 5 / 2))
       \<lparr>world = (), cells = [], trace = []\<rparr>)) ! 0
     = \<lparr>x_ms_between_retries = Num 2, n_retries = Num (- 3), retries_remaining = Num (- 3)\<rparr>
   \<and> trunc_toward_zero (5 / 2) = 2 \<and> trunc_toward_zero (- 5 / 2) = - 2"
proof -
  have f: "\<lfloor>5 / 2 :: rat\<rfloor> = 2" "\<lfloor>- (5 / 2) :: rat\<rfloor> = - 3"
    by (simp_all add: floor_eq_iff)
  obtain g st' where c: "constant_timer_retry (Num (5 / 2)) (Num (- 5 / 2))
       \<lparr>world = (), cells = [], trace = []\<rparr> = (g, st')"
    by (cases "constant_timer_retry (Num (5 / 2)) (Num (- 5 / 2)) \<lparr>world = (), cells = [], trace = []\<rparr>")
  show ?thesis
    using construction_inputs_are_floored [OF c] c f
    by simp
qed

section \<open>Two resolutions of one descriptor\<close>




lemma retrier_validate_object:
  assumes "retrier_validate (JObj kvs) st = (Inr f, st')"
  shows "\<exists>pkvs x n. object_keys kvs = [''constant_timer_retry'']
           \<and> own_property kvs ''constant_timer_retry'' = Some (JObj pkvs)
           \<and> own_property pkvs ''x_ms_between_retries'' = Some (JNum x)
           \<and> own_property pkvs ''n_retries'' = Some (JNum n)
           \<and> truthy (JNum x) \<and> truthy (JNum n)"
proof -
  from assms obtain name e where k: "object_keys kvs = [name]"
    and e: "map_of retry_fn name = Some e"
    by (auto simp: retrier_validate_def split: list.splits option.splits sum.splits if_splits)
  from e have name: "name = ''constant_timer_retry''"
    and p: "params e = [(''x_ms_between_retries'', ''number''), (''n_retries'', ''number'')]"
    by (auto simp: retry_fn_def split: if_splits)
  from own_property_of_key [OF k] obtain pobj where o: "own_property kvs name = Some pobj"
    by blast
  from assms k e o obtain arg_vals where a: "params_forEach name pobj (params e) [] = Inr arg_vals"
    by (auto simp: retrier_validate_def split: sum.splits)
  have num: "\<exists>x. v = JNum x" if "typeof v = ''number''" for v
    using that by (cases v) simp_all
  from a have "\<exists>pkvs x n. pobj = JObj pkvs
           \<and> own_property pkvs ''x_ms_between_retries'' = Some (JNum x)
           \<and> own_property pkvs ''n_retries'' = Some (JNum n)
           \<and> truthy (JNum x) \<and> truthy (JNum n)"
    unfolding p
    by (cases pobj) (auto simp: Let_def split: sum.splits if_splits option.splits dest!: num)
  with k o name show ?thesis
    by blast
qed

text \<open>
  No invocation and no run of the loop removes a cell: after a first resolution every later
  state has more cells than the state before it.
\<close>

lemma call_fn_length_cells:
  "length (cells (snd (call_fn ext f err st))) = length (cells st)"
  by (cases f) (simp_all add: closure_call_def Let_def split: prod.splits del: minus_one.simps)

lemma call_many_length_cells:
  "length (cells (snd (call_many ext f errs st))) = length (cells st)"
proof (induction errs arbitrary: st)
  case Nil
  show ?case by simp
next
  case (Cons err errs)
  show ?case
    using Cons.IH [of "snd (call_fn ext f err st)"] call_fn_length_cells [of ext f err st]
    by (simp add: call_many_Cons del: call_many.simps)
qed

lemma call_subject_length_cells:
  "length (cells (snd (call_subject subj st))) = length (cells st)"
  by (simp add: call_subject_eq)

lemma subject_caller_length_cells_step:
  assumes IH: "\<And>st' y'. g ext subj f st' = Some y' \<Longrightarrow> length (cells (snd y')) = length (cells st')"
    and F: "(case call_subject subj st of
        (Resolves v, st1) \<Rightarrow> Some (Resolves v, st1)
      | (Rejects err, st1) \<Rightarrow>
          (case call_fn ext f err st1 of
             (Resolves u, st2) \<Rightarrow> g ext subj f st2
           | (Rejects r, st2) \<Rightarrow> Some (Rejects r, st2)
           | (Never, st2) \<Rightarrow> Some (Never, st2))
      | (Never, st1) \<Rightarrow> Some (Never, st1)) = Some y"
  shows "length (cells (snd y)) = length (cells st)"
proof -
  obtain p st1 where cs: "call_subject subj st = (p, st1)"
    by (cases "call_subject subj st")
  with call_subject_length_cells [of subj st] have l1: "length (cells st1) = length (cells st)"
    by simp
  show ?thesis
  proof (cases p)
    case (Rejects err)
    obtain q st2 where cc: "call_fn ext f err st1 = (q, st2)"
      by (cases "call_fn ext f err st1")
    with call_fn_length_cells [of ext f err st1] l1 have l2: "length (cells st2) = length (cells st)"
      by simp
    show ?thesis
    proof (cases q)
      case (Resolves u)
      with F cs cc Rejects have "g ext subj f st2 = Some y"
        by simp
      from IH [OF this] l2 show ?thesis by simp
    qed (use F cs cc Rejects l2 in auto)
  qed (use F cs l1 in auto)
qed

lemma subject_caller_length_cells:
  assumes "subject_caller ext subj f st = Some y"
  shows "length (cells (snd y)) = length (cells st)"
  by (rule subject_caller.raw_induct
        [where P = "\<lambda>ext subj f st y. length (cells (snd y)) = length (cells st)", OF _ assms])
     (rule subject_caller_length_cells_step, assumption+)



end
